theory Spec2Isabelle
  imports Complex_Main
begin

section \<open>Root finding by bisection, Newton-Raphson and interval walking (utils.py)\<close>

text \<open>
  The module works on Python floats. They are modelled as the real numbers: the
  arithmetic is exact, and rounding, overflow and the infinities are outside the
  model. The one special float the module creates itself, the not-a-number that
  fills the unused slots of the list of roots, is a constructor of its own.
  Python integers (\<open>max_iter\<close>, \<open>N\<close>, \<open>n\<close>) are \<open>int\<close>; \<open>range(k)\<close> runs
  \<open>nat k\<close> times, so not at all for \<open>k \<le> 0\<close>.

  A callable \<open>f\<close> either returns a float or raises, so it is a function into
  \<open>error + real\<close>. It is a function of its argument only: where the source
  evaluates \<open>f\<close> twice at the same point in a row, the model evaluates it once.
\<close>

subsection \<open>Exceptions and warnings\<close>

datatype error =
    AsymtoteException
  | ZeroDivisionError
  | UnboundLocalError
  | IndexError
  | Fault string

text \<open>
  \<open>warnings.warn\<close> does not interrupt the caller; a warning is an entry of a log.
  A \<open>ConvergenceWarning\<close> carries \<open>eps\<close>, \<open>max_iter\<close>, \<open>x\<close> and \<open>f(x)\<close>, an
  \<open>IncompleteSolution\<close> carries \<open>x0\<close>, \<open>x_max\<close>, \<open>i\<close> and \<open>n\<close>: the values the
  messages are formatted from.
\<close>

datatype warning =
    ConvergenceWarning real int real real
  | IncompleteSolution real real nat int

type_synonym func = "real \<Rightarrow> error + real"

text \<open>\<open>convergencewarning\<close> evaluates \<open>f(x)\<close> for its message, and that call may raise.\<close>

definition convergencewarning :: "real \<Rightarrow> int \<Rightarrow> real \<Rightarrow> func \<Rightarrow> error + warning" where
  "convergencewarning eps max_iter x f =
     (case f x of
        Inl e \<Rightarrow> Inl e
      | Inr fx \<Rightarrow> Inr (ConvergenceWarning eps max_iter x fx))"

definition incompletesolution :: "real \<Rightarrow> real \<Rightarrow> nat \<Rightarrow> int \<Rightarrow> warning" where
  "incompletesolution x0 x_max i n = IncompleteSolution x0 x_max i n"

subsection \<open>bisect\<close>

text \<open>
  The loop of \<open>bisect\<close>, with the number of iterations still to run as the
  recursion argument. The local \<open>m\<close> is unbound until the first iteration has
  assigned it, hence an option. The equation for \<open>0\<close> is the code after the loop:
  the asymptote test \<open>-f(a)*f(b) > 1/eps\<close> (its left side is evaluated first, then
  \<open>1/eps\<close>, which raises for \<open>eps = 0\<close>), then either the \<open>raise\<close>, whose message
  reads \<open>m\<close> first, or the warning and \<open>return m\<close>.
\<close>

fun bisect_loop ::
  "func \<Rightarrow> real \<Rightarrow> int \<Rightarrow> nat \<Rightarrow> real \<Rightarrow> real \<Rightarrow> real option \<Rightarrow> error + real \<times> warning option"
where
  "bisect_loop f eps max_iter 0 a b m =
     (case f a of
        Inl e \<Rightarrow> Inl e
      | Inr fa \<Rightarrow>
         (case f b of
            Inl e \<Rightarrow> Inl e
          | Inr fb \<Rightarrow>
             if eps = 0 then Inl ZeroDivisionError
             else if - fa * fb > 1 / eps then
               (case m of
                  None \<Rightarrow> Inl UnboundLocalError
                | Some m' \<Rightarrow> Inl AsymtoteException)
             else
               (case m of
                  None \<Rightarrow> Inl UnboundLocalError
                | Some m' \<Rightarrow>
                   (case convergencewarning eps max_iter m' f of
                      Inl e \<Rightarrow> Inl e
                    | Inr w \<Rightarrow> Inr (m', Some w)))))"
| "bisect_loop f eps max_iter (Suc k) a b m =
     (let m' = (a + b) / 2 in
      case f m' of
        Inl e \<Rightarrow> Inl e
      | Inr fm \<Rightarrow>
         if \<bar>fm\<bar> < eps then Inr (m', None)
         else
           (case f a of
              Inl e \<Rightarrow> Inl e
            | Inr fa \<Rightarrow>
               if fa * fm < 0 then bisect_loop f eps max_iter k a m' (Some m')
               else bisect_loop f eps max_iter k m' b (Some m')))"

definition bisect :: "func \<Rightarrow> real \<Rightarrow> real \<Rightarrow> real \<Rightarrow> int \<Rightarrow> error + real \<times> warning option" where
  "bisect f a b eps max_iter = bisect_loop f eps max_iter (nat max_iter) a b None"

subsection \<open>newton_raphson\<close>

text \<open>
  The update \<open>x0 - f(x0)/df(x0)\<close> evaluates \<open>f(x0)\<close>, then \<open>df(x0)\<close>, then divides:
  a zero derivative raises \<open>ZeroDivisionError\<close>. The equation for \<open>0\<close> is the
  code after the loop.
\<close>

fun newton_loop ::
  "func \<Rightarrow> func \<Rightarrow> real \<Rightarrow> int \<Rightarrow> nat \<Rightarrow> real \<Rightarrow> error + real \<times> warning option"
where
  "newton_loop f df eps max_iter 0 x0 =
     (case convergencewarning eps max_iter x0 f of
        Inl e \<Rightarrow> Inl e
      | Inr w \<Rightarrow> Inr (x0, Some w))"
| "newton_loop f df eps max_iter (Suc k) x0 =
     (case f x0 of
        Inl e \<Rightarrow> Inl e
      | Inr fx \<Rightarrow>
         (case df x0 of
            Inl e \<Rightarrow> Inl e
          | Inr dfx \<Rightarrow>
             if dfx = 0 then Inl ZeroDivisionError
             else
               (let x1 = x0 - fx / dfx in
                case f x1 of
                  Inl e \<Rightarrow> Inl e
                | Inr fx1 \<Rightarrow>
                   if \<bar>fx1\<bar> < eps then Inr (x1, None)
                   else newton_loop f df eps max_iter k x1)))"

definition newton_raphson ::
  "real \<Rightarrow> func \<Rightarrow> func \<Rightarrow> real \<Rightarrow> int \<Rightarrow> error + real \<times> warning option"
where
  "newton_raphson x0 f df eps max_iter = newton_loop f df eps max_iter (nat max_iter) x0"

subsection \<open>rootwalk\<close>

text \<open>A slot of the list of roots: \<open>float('nan')\<close> or a number.\<close>

datatype slot = NaN | Num real

text \<open>\<open>r[i] = v\<close> for an index \<open>i \<ge> 0\<close>: out of range it raises \<open>IndexError\<close>.\<close>

definition store :: "slot list \<Rightarrow> nat \<Rightarrow> real \<Rightarrow> error + slot list" where
  "store r i v = (if i < length r then Inr (r[i := Num v]) else Inl IndexError)"

definition warned :: "warning option \<Rightarrow> warning list" where
  "warned w = (case w of None \<Rightarrow> [] | Some w' \<Rightarrow> [w'])"

text \<open>
  The handler of the \<open>try\<close> block: an \<open>AsymtoteException\<close> is passed over and the
  scan goes on with \<open>i\<close> and \<open>r\<close> as they were; anything else propagates.
\<close>

definition except_asymtote ::
  "error \<Rightarrow> nat \<Rightarrow> slot list \<Rightarrow> warning list \<Rightarrow> (error + nat \<times> slot list) \<times> warning list"
where
  "except_asymtote e i r ws =
     (if e = AsymtoteException then (Inr (i, r), ws) else (Inl e, ws))"

text \<open>
  The \<open>try\<close> block of one step: the sign test on \<open>[x, x + dx]\<close>, and on a sign
  change the call of \<open>bisect\<close>, the store of its result at slot \<open>i\<close> and \<open>i += 1\<close>.
  The right-hand side \<open>bisect(...)\<close> is evaluated before the store.
\<close>

definition rootwalk_try ::
  "func \<Rightarrow> real \<Rightarrow> real \<Rightarrow> int \<Rightarrow> real \<Rightarrow> nat \<Rightarrow> slot list \<Rightarrow> warning list
    \<Rightarrow> (error + nat \<times> slot list) \<times> warning list"
where
  "rootwalk_try f dx eps max_iter x i r ws =
     (case f x of
        Inl e \<Rightarrow> except_asymtote e i r ws
      | Inr fx \<Rightarrow>
         (case f (x + dx) of
            Inl e \<Rightarrow> except_asymtote e i r ws
          | Inr fy \<Rightarrow>
             if fx * fy < 0 then
               (case bisect f x (x + dx) eps max_iter of
                  Inl e \<Rightarrow> except_asymtote e i r ws
                | Inr (m, w) \<Rightarrow>
                   (case store r i m of
                      Inl e \<Rightarrow> except_asymtote e i r (ws @ warned w)
                    | Inr r' \<Rightarrow> (Inr (Suc i, r'), ws @ warned w)))
             else (Inr (i, r), ws)))"

text \<open>
  The loop of \<open>rootwalk\<close>, with the number of steps still to run as the recursion
  argument; the equation for \<open>0\<close> is the code after the loop.
\<close>

fun rootwalk_loop ::
  "func \<Rightarrow> real \<Rightarrow> real \<Rightarrow> real \<Rightarrow> int \<Rightarrow> real \<Rightarrow> int \<Rightarrow> nat \<Rightarrow> real \<Rightarrow> nat \<Rightarrow> slot list
    \<Rightarrow> warning list \<Rightarrow> (error + slot list) \<times> warning list"
where
  "rootwalk_loop f a b dx n eps max_iter 0 x i r ws =
     (Inr r, ws @ [incompletesolution a b i n])"
| "rootwalk_loop f a b dx n eps max_iter (Suc k) x i r ws =
     (case rootwalk_try f dx eps max_iter x i r ws of
        (Inl e, ws') \<Rightarrow> (Inl e, ws')
      | (Inr (i', r'), ws') \<Rightarrow>
         if int i' = n then (Inr r', ws')
         else rootwalk_loop f a b dx n eps max_iter k (x + dx) i' r' ws')"

definition rootwalk ::
  "func \<Rightarrow> real \<Rightarrow> real \<Rightarrow> int \<Rightarrow> int \<Rightarrow> real \<Rightarrow> int \<Rightarrow> (error + slot list) \<times> warning list"
where
  "rootwalk f a b N n eps max_iter =
     (if N = 0 then (Inl ZeroDivisionError, [])
      else rootwalk_loop f a b ((b - a) / of_int N) n eps max_iter (nat N) a 0
             (replicate (nat n) NaN) [])"

section \<open>bisect over any arithmetic\<close>

text \<open>
  A second embedding of \<open>bisect\<close> (lines 60 to 82), in which the arithmetic on
  floats is not fixed: the numbers are of any type, and the four computations on
  them are parameters, the midpoint \<open>(a + b) / 2\<close>, the tests \<open>abs(y) < eps\<close> and
  \<open>y1 * y2 < 0\<close>, and the test \<open>-y1 * y2 > 1 / eps\<close>, which may raise. With the
  operations of IEEE doubles (rounding, overflow to an infinity, not-a-number)
  this is the program as Python runs it; with the exact operations on the reals
  it is \<open>bisect_loop\<close> above.
\<close>

record 'a arith =
  midpoint :: "'a \<Rightarrow> 'a \<Rightarrow> 'a"
  margin :: "'a \<Rightarrow> 'a \<Rightarrow> bool"
  opposite :: "'a \<Rightarrow> 'a \<Rightarrow> bool"
  asymtote :: "'a \<Rightarrow> 'a \<Rightarrow> 'a \<Rightarrow> error + bool"

text \<open>The \<open>ConvergenceWarning\<close> with its \<open>eps\<close>, \<open>max_iter\<close>, \<open>x\<close> and \<open>f(x)\<close>.\<close>

datatype 'a shortfall = Shortfall 'a int 'a 'a

fun bisect_loop_on ::
  "'a arith \<Rightarrow> ('a \<Rightarrow> error + 'a) \<Rightarrow> 'a \<Rightarrow> int \<Rightarrow> nat \<Rightarrow> 'a \<Rightarrow> 'a \<Rightarrow> 'a option
    \<Rightarrow> error + 'a \<times> 'a shortfall option"
where
  "bisect_loop_on ar f eps max_iter 0 a b m =
     (case f a of
        Inl e \<Rightarrow> Inl e
      | Inr fa \<Rightarrow>
         (case f b of
            Inl e \<Rightarrow> Inl e
          | Inr fb \<Rightarrow>
             (case asymtote ar fa fb eps of
                Inl e \<Rightarrow> Inl e
              | Inr True \<Rightarrow>
                 (case m of
                    None \<Rightarrow> Inl UnboundLocalError
                  | Some m' \<Rightarrow> Inl AsymtoteException)
              | Inr False \<Rightarrow>
                 (case m of
                    None \<Rightarrow> Inl UnboundLocalError
                  | Some m' \<Rightarrow>
                     (case f m' of
                        Inl e \<Rightarrow> Inl e
                      | Inr y \<Rightarrow> Inr (m', Some (Shortfall eps max_iter m' y)))))))"
| "bisect_loop_on ar f eps max_iter (Suc k) a b m =
     (let m' = midpoint ar a b in
      case f m' of
        Inl e \<Rightarrow> Inl e
      | Inr fm \<Rightarrow>
         if margin ar fm eps then Inr (m', None)
         else
           (case f a of
              Inl e \<Rightarrow> Inl e
            | Inr fa \<Rightarrow>
               if opposite ar fa fm then bisect_loop_on ar f eps max_iter k a m' (Some m')
               else bisect_loop_on ar f eps max_iter k m' b (Some m')))"

definition bisect_on ::
  "'a arith \<Rightarrow> ('a \<Rightarrow> error + 'a) \<Rightarrow> 'a \<Rightarrow> 'a \<Rightarrow> 'a \<Rightarrow> int \<Rightarrow> error + 'a \<times> 'a shortfall option"
where
  "bisect_on ar f a b eps max_iter = bisect_loop_on ar f eps max_iter (nat max_iter) a b None"

text \<open>The exact operations on the reals.\<close>

definition exact :: "real arith" where
  "exact =
     \<lparr>midpoint = (\<lambda>a b. (a + b) / 2),
      margin = (\<lambda>y eps. \<bar>y\<bar> < eps),
      opposite = (\<lambda>y z. y * z < 0),
      asymtote = (\<lambda>y z eps. if eps = 0 then Inl ZeroDivisionError else Inr (- y * z > 1 / eps))\<rparr>"

definition as_warning :: "real shortfall \<Rightarrow> warning" where
  "as_warning s = (case s of Shortfall eps max_iter x y \<Rightarrow> ConvergenceWarning eps max_iter x y)"

section \<open>Definitions for the statements\<close>

subsection \<open>Callables that never raise\<close>

text \<open>
  For the statements about the iterations, \<open>f\<close> is a callable that never raises:
  \<open>lifted g\<close> for a real function \<open>g\<close>.
\<close>

definition lifted :: "(real \<Rightarrow> real) \<Rightarrow> func" where
  "lifted g x = Inr (g x)"

subsection \<open>The intervals of bisect\<close>





subsection \<open>The iterates of newton_raphson\<close>

text \<open>
  The specification's account of the solver: each iteration replaces \<open>x0\<close> by
  \<open>x0 - f(x0) / df(x0)\<close>. \<open>iterate g dg start k\<close> is the iterate after \<open>k\<close> updates.
\<close>

definition newton_step :: "(real \<Rightarrow> real) \<Rightarrow> (real \<Rightarrow> real) \<Rightarrow> real \<Rightarrow> real" where
  "newton_step g dg x = x - g x / dg x"

fun iterate :: "(real \<Rightarrow> real) \<Rightarrow> (real \<Rightarrow> real) \<Rightarrow> real \<Rightarrow> nat \<Rightarrow> real" where
  "iterate g dg start 0 = start"
| "iterate g dg start (Suc k) = newton_step g dg (iterate g dg start k)"

text \<open>
  Update \<open>j\<close> goes through for the callables \<open>f\<close> and \<open>df\<close>: at iterate \<open>j\<close> they
  return the values of \<open>g\<close> and \<open>dg\<close>, the derivative is not zero, and \<open>f\<close> returns
  at the updated iterate.
\<close>

definition updates :: "func \<Rightarrow> func \<Rightarrow> (real \<Rightarrow> real) \<Rightarrow> (real \<Rightarrow> real) \<Rightarrow> real \<Rightarrow> nat \<Rightarrow> bool" where
  "updates f df g dg start j \<longleftrightarrow>
     f (iterate g dg start j) = Inr (g (iterate g dg start j)) \<and>
     df (iterate g dg start j) = Inr (dg (iterate g dg start j)) \<and>
     dg (iterate g dg start j) \<noteq> 0 \<and>
     f (iterate g dg start (Suc j)) = Inr (g (iterate g dg start (Suc j)))"

subsection \<open>Sample functions\<close>

text \<open>The function \<open>f(x) = x\<close>, and a monotonic function that jumps over zero.\<close>

definition identity :: "real \<Rightarrow> real" where
  "identity x = x"

definition step :: "real \<Rightarrow> real" where
  "step x = (if x < 1 / 3 then - 1 else 1)"

subsection \<open>The list of roots\<close>

text \<open>The numbers of a list of slots, in order, the not-a-numbers left out.\<close>

fun nums :: "slot list \<Rightarrow> real list" where
  "nums [] = []"
| "nums (NaN # r) = nums r"
| "nums (Num v # r) = v # nums r"

text \<open>\<open>f(x) = 1/x\<close>, which raises at 0.\<close>

definition reciprocal :: func where
  "reciprocal x = (if x = 0 then Inl ZeroDivisionError else Inr (1 / x))"

text \<open>
  A steep line, on which \<open>bisect\<close> with one iteration raises \<open>AsymtoteException\<close>;
  a callable that raises \<open>AsymtoteException\<close> itself left of 1; a callable that
  raises right of 1; and a function that is steep on \<open>[0, 2]\<close> and has the root 3.
\<close>

definition steep :: "real \<Rightarrow> real" where
  "steep x = 10000 * x"

definition raises_asymtote :: func where
  "raises_asymtote x = (if x < 1 then Inl AsymtoteException else Inr (x - 3 / 2))"

definition raises_beyond :: func where
  "raises_beyond x = (if x \<le> 1 then Inr (x - 1 / 2) else Inl (Fault ''domain''))"

definition steep_then_root :: "real \<Rightarrow> real" where
  "steep_then_root x = (if x \<le> 2 then 10000 * (x - 1 / 2) else 3 - x)"

subsection \<open>The scan of rootwalk\<close>

text \<open>
  The specification's account of the scan. What one sub-interval \<open>[x, x + dx]\<close>
  gives: nothing (no sign change, or an \<open>AsymtoteException\<close> that is passed
  over), a root with the warning of \<open>bisect\<close> if any (a sign change
  \<open>f(x) * f(x + dx) < 0\<close> on which \<open>bisect\<close> returns), or an exception that ends
  the call.
\<close>

datatype probed = Quiet | Hit real "warning option" | Failed error

definition passed_over :: "error \<Rightarrow> probed" where
  "passed_over e = (if e = AsymtoteException then Quiet else Failed e)"

definition probe :: "func \<Rightarrow> real \<Rightarrow> int \<Rightarrow> real \<Rightarrow> real \<Rightarrow> probed" where
  "probe f eps max_iter dx x =
     (case f x of
        Inl e \<Rightarrow> passed_over e
      | Inr fx \<Rightarrow>
         (case f (x + dx) of
            Inl e \<Rightarrow> passed_over e
          | Inr fy \<Rightarrow>
             if fx * fy < 0 then
               (case bisect f x (x + dx) eps max_iter of
                  Inl e \<Rightarrow> passed_over e
                | Inr (m, w) \<Rightarrow> Hit m w)
             else Quiet))"

text \<open>
  The left ends of the sub-intervals, as the scan reaches them: it starts at \<open>x\<close>
  and goes on by \<open>x += dx\<close>.
\<close>

fun points :: "real \<Rightarrow> real \<Rightarrow> nat \<Rightarrow> real list" where
  "points x dx 0 = []"
| "points x dx (Suc k) = x # points (x + dx) dx k"

text \<open>
  The part of the sub-intervals that is scanned when \<open>c\<close> roots are still wanted:
  the scan stops behind the sub-interval that gives the last root wanted, and at
  an exception; what the later sub-intervals would give plays no part.
\<close>

fun scanned :: "nat \<Rightarrow> probed list \<Rightarrow> probed list" where
  "scanned 0 ps = []"
| "scanned (Suc c) [] = []"
| "scanned (Suc c) (Quiet # ps) = Quiet # scanned (Suc c) ps"
| "scanned (Suc c) (Hit m w # ps) = Hit m w # scanned c ps"
| "scanned (Suc c) (Failed e # ps) = [Failed e]"

text \<open>The roots, the warnings and the exception among the results scanned.\<close>

fun roots :: "probed list \<Rightarrow> real list" where
  "roots [] = []"
| "roots (Hit m w # ps) = m # roots ps"
| "roots (p # ps) = roots ps"

fun warnings :: "probed list \<Rightarrow> warning list" where
  "warnings [] = []"
| "warnings (Hit m w # ps) = warned w @ warnings ps"
| "warnings (p # ps) = warnings ps"

fun failure :: "probed list \<Rightarrow> error option" where
  "failure [] = None"
| "failure (Failed e # ps) = Some e"
| "failure (p # ps) = failure ps"

text \<open>
  What the call gives for the results scanned: the exception, if there is one;
  else the list of \<open>n\<close> slots with the roots from the left and \<open>NaN\<close> in the rest,
  and \<open>IncompleteSolution\<close> in the log when the roots are fewer than \<open>n\<close>.
\<close>

definition outcome ::
  "real \<Rightarrow> real \<Rightarrow> nat \<Rightarrow> probed list \<Rightarrow> (error + slot list) \<times> warning list" where
  "outcome a b n ps =
     (case failure ps of
        Some e \<Rightarrow> (Inl e, warnings ps)
      | None \<Rightarrow>
          (Inr (map Num (roots ps) @ replicate (n - length (roots ps)) NaN),
           warnings ps @
             (if length (roots ps) < n
              then [IncompleteSolution a b (length (roots ps)) (int n)] else [])))"

text \<open>
  The same from a state of the loop, with the roots \<open>ms\<close> already in the list and
  the warnings \<open>ws\<close> already logged.
\<close>

definition finish ::
  "real \<Rightarrow> real \<Rightarrow> nat \<Rightarrow> real list \<Rightarrow> warning list \<Rightarrow> probed list
    \<Rightarrow> (error + slot list) \<times> warning list" where
  "finish a b n ms ws sc =
     (case failure sc of
        Some e \<Rightarrow> (Inl e, ws @ warnings sc)
      | None \<Rightarrow>
          (Inr (map Num (ms @ roots sc) @ replicate (n - length ms - length (roots sc)) NaN),
           ws @ warnings sc @
             (if length ms + length (roots sc) < n
              then [IncompleteSolution a b (length ms + length (roots sc)) (int n)] else [])))"

section \<open>The iterations of bisect\<close>








section \<open>The iterations of newton_raphson\<close>

lemma iterate_shift: "iterate g dg start (Suc k) = iterate g dg (newton_step g dg start) k"
  by (induction k) simp_all

lemma updates_shift: "updates f df g dg start (Suc j) = updates f df g dg (newton_step g dg start) j"
  by (simp only: updates_def iterate_shift)

lemma newton_loop_update:
  assumes "updates f df g dg start 0"
  shows "newton_loop f df eps mi (Suc k) start =
     (if \<bar>g (newton_step g dg start)\<bar> < eps then Inr (newton_step g dg start, None)
      else newton_loop f df eps mi k (newton_step g dg start))"
  using assms by (simp add: updates_def newton_step_def Let_def)

lemma newton_loop_unroll:
  "(\<And>j. j < k \<Longrightarrow> updates f df g dg start j \<and> \<not> \<bar>g (iterate g dg start (Suc j))\<bar> < eps) \<Longrightarrow>
   newton_loop f df eps mi (k + r) start = newton_loop f df eps mi r (iterate g dg start k)"
proof (induction k arbitrary: start)
  case 0
  show ?case by simp
next
  case (Suc k)
  have first: "updates f df g dg start 0" "\<not> \<bar>g (newton_step g dg start)\<bar> < eps"
    using Suc.prems [of 0] by simp_all
  have rest: "\<And>j. j < k \<Longrightarrow> updates f df g dg (newton_step g dg start) j \<and>
                \<not> \<bar>g (iterate g dg (newton_step g dg start) (Suc j))\<bar> < eps"
    using Suc.prems [of "Suc _"] by (simp only: iterate_shift updates_shift) simp
  have "newton_loop f df eps mi (Suc k + r) start =
        newton_loop f df eps mi (k + r) (newton_step g dg start)"
    using first by (simp add: newton_loop_update del: newton_loop.simps)
  also have "\<dots> = newton_loop f df eps mi r (iterate g dg (newton_step g dg start) k)"
    by (rule Suc.IH [OF rest])
  finally show ?case
    by (simp only: iterate_shift)
qed





text \<open>
  C6. When the derivative evaluates to zero at the current iterate (after \<open>k\<close>
  updates that went through without a return), the call raises
  \<open>ZeroDivisionError\<close>; and whatever \<open>f\<close> or \<open>df\<close> raises there is raised by the
  call unchanged.
\<close>

theorem newton_raphson_faults:
  assumes "k < nat max_iter"
    and "\<forall>j<k. updates f df g dg start j \<and> \<not> \<bar>g (iterate g dg start (Suc j))\<bar> < eps"
  shows "(f (iterate g dg start k) = Inr y \<and> df (iterate g dg start k) = Inr 0
           \<longrightarrow> newton_raphson start f df eps max_iter = Inl ZeroDivisionError) \<and>
         (f (iterate g dg start k) = Inr y \<and> df (iterate g dg start k) = Inl e
           \<longrightarrow> newton_raphson start f df eps max_iter = Inl e) \<and>
         (f (iterate g dg start k) = Inl e
           \<longrightarrow> newton_raphson start f df eps max_iter = Inl e)"
proof -
  obtain r where r: "nat max_iter = k + Suc r"
    using assms(1) by (metis less_imp_Suc_add add_Suc_right)
  have "newton_loop f df eps max_iter (k + Suc r) start =
        newton_loop f df eps max_iter (Suc r) (iterate g dg start k)"
    using assms(2) by (intro newton_loop_unroll) simp
  then have "newton_raphson start f df eps max_iter =
        newton_loop f df eps max_iter (Suc r) (iterate g dg start k)"
    by (simp add: newton_raphson_def r)
  then show ?thesis
    by simp
qed

theorem newton_raphson_faults_witness:
  "newton_raphson 1 (lifted (\<lambda>x. x * x + 1)) (lifted (\<lambda>x. 2 * x)) (1 / 1000000) 100 =
     Inl ZeroDivisionError \<and>
   newton_raphson 1 (lifted (\<lambda>x. x * x + 1)) (\<lambda>x. Inl (Fault ''df'')) (1 / 1000000) 100 =
     Inl (Fault ''df'') \<and>
   newton_raphson 1 (\<lambda>x. Inl (Fault ''f'')) (lifted (\<lambda>x. 2 * x)) (1 / 1000000) 100 =
     Inl (Fault ''f'')"
proof -
  have "newton_raphson 1 (lifted (\<lambda>x. x * x + 1)) (lifted (\<lambda>x. 2 * x)) (1 / 1000000) 100 =
     Inl ZeroDivisionError"
    using newton_raphson_faults [where k = 1 and max_iter = 100 and f = "lifted (\<lambda>x. x * x + 1)"
        and df = "lifted (\<lambda>x. 2 * x)" and g = "\<lambda>x. x * x + 1" and dg = "\<lambda>x. 2 * x"
        and start = 1 and eps = "1 / 1000000" and y = 1]
    by (simp add: updates_def lifted_def newton_step_def)
  moreover have "newton_raphson 1 (lifted (\<lambda>x. x * x + 1)) (\<lambda>x. Inl (Fault ''df'')) (1 / 1000000) 100 =
     Inl (Fault ''df'')"
    using newton_raphson_faults [where k = 0 and max_iter = 100 and f = "lifted (\<lambda>x. x * x + 1)"
        and df = "\<lambda>x. Inl (Fault ''df'')" and start = 1 and eps = "1 / 1000000" and y = 2
        and e = "Fault ''df''"]
    by (simp add: lifted_def)
  moreover have "newton_raphson 1 (\<lambda>x. Inl (Fault ''f'')) (lifted (\<lambda>x. 2 * x)) (1 / 1000000) 100 =
     Inl (Fault ''f'')"
    using newton_raphson_faults [where k = 0 and max_iter = 100 and f = "\<lambda>x. Inl (Fault ''f'')"
        and df = "lifted (\<lambda>x. 2 * x)" and start = 1 and eps = "1 / 1000000"
        and e = "Fault ''f''"]
    by simp
  ultimately show ?thesis by simp
qed

section \<open>What bisect returns\<close>

text \<open>With the exact operations, \<open>bisect_on\<close> is \<open>bisect\<close>.\<close>

lemma exact_simps:
  "midpoint exact a b = (a + b) / 2"
  "margin exact y eps \<longleftrightarrow> \<bar>y\<bar> < eps"
  "opposite exact y z \<longleftrightarrow> y * z < 0"
  "asymtote exact y z eps = (if eps = 0 then Inl ZeroDivisionError else Inr (- y * z > 1 / eps))"
  by (simp_all add: exact_def)

lemma bisect_loop_exact:
  "bisect_loop f eps mi k a b m =
     (case bisect_loop_on exact f eps mi k a b m of
        Inl e \<Rightarrow> Inl e
      | Inr (x, w) \<Rightarrow> Inr (x, map_option as_warning w))"
proof (induction k arbitrary: a b m)
  case 0
  show ?case
  proof (cases "f a")
    case (Inl e)
    then show ?thesis by simp
  next
    case fa: (Inr fa)
    show ?thesis
    proof (cases "f b")
      case (Inl e)
      with fa show ?thesis by simp
    next
      case fb: (Inr fb)
      show ?thesis
      proof (cases m)
        case None
        with fa fb show ?thesis by (simp add: exact_simps)
      next
        case (Some m')
        with fa fb show ?thesis
          by (cases "f m'") (simp_all add: exact_simps convergencewarning_def as_warning_def)
      qed
    qed
  qed
next
  case (Suc k)
  show ?case
  proof (cases "f ((a + b) / 2)")
    case (Inl e)
    then show ?thesis by (simp add: exact_simps Let_def)
  next
    case fm: (Inr fm)
    show ?thesis
    proof (cases "\<bar>fm\<bar> < eps")
      case True
      with fm show ?thesis by (simp add: exact_simps Let_def)
    next
      case nt: False
      show ?thesis
      proof (cases "f a")
        case (Inl e)
        with fm nt show ?thesis by (simp add: exact_simps Let_def)
      next
        case fa: (Inr fa)
        show ?thesis
        proof (cases "fa * fm < 0")
          case True
          with fm nt fa show ?thesis
            by (simp add: exact_simps Let_def Suc.IH)
        next
          case False
          with fm nt fa show ?thesis
            by (simp add: exact_simps Let_def Suc.IH)
        qed
      qed
    qed
  qed
qed

lemma bisect_exact:
  "bisect f a b eps mi =
     (case bisect_on exact f a b eps mi of
        Inl e \<Rightarrow> Inl e
      | Inr (x, w) \<Rightarrow> Inr (x, map_option as_warning w))"
  by (simp add: bisect_def bisect_on_def bisect_loop_exact)






section \<open>No iterations, no steps\<close>

text \<open>
  C8 does not hold of the code. With \<open>max_iter = 0\<close> the local \<open>m\<close> of \<open>bisect\<close> is
  never assigned, so the call returns nothing, whatever \<open>f\<close> is: with \<open>f(x) = x\<close>
  on \<open>[-1, 1]\<close> it raises \<open>UnboundLocalError\<close> where the warning would be built.
  With \<open>N = 0\<close>, \<open>rootwalk\<close> raises \<open>ZeroDivisionError\<close> at \<open>dx = (b - a) / N\<close>,
  before the loop and before any warning.
\<close>

theorem zero_iterations_raise:
  "bisect f a b eps 0 \<noteq> Inr r \<and>
   bisect (lifted identity) (- 1) 1 (1 / 1000000) 0 = Inl UnboundLocalError \<and>
   rootwalk f a b 0 n eps max_iter = (Inl ZeroDivisionError, [])"
  by (simp add: bisect_def rootwalk_def lifted_def identity_def split: sum.splits)

section \<open>The scan of rootwalk\<close>

subsection \<open>The handler\<close>

lemma rootwalk_try_error:
  "fst (rootwalk_try f dx eps mi x i r ws) \<noteq> Inl AsymtoteException"
  by (simp add: rootwalk_try_def except_asymtote_def split: sum.splits prod.splits)

lemma rootwalk_loop_no_asymtote:
  "fst (rootwalk_loop f a b dx n eps mi k x i r ws) \<noteq> Inl AsymtoteException"
proof (induction k arbitrary: x i r ws)
  case 0
  show ?case by simp
next
  case (Suc k)
  show ?case
  proof (cases "rootwalk_try f dx eps mi x i r ws")
    case (Pair res ws')
    show ?thesis
    proof (cases res)
      case (Inl e)
      with Pair rootwalk_try_error [of f dx eps mi x i r ws] show ?thesis
        by simp
    next
      case (Inr ir)
      with Pair Suc.IH show ?thesis
        by (cases ir) simp
    qed
  qed
qed

text \<open>
  C4, as amended. In a step of the scan: when the \<open>try\<close> block raises
  \<open>AsymtoteException\<close>, in the call of \<open>bisect\<close> on a sub-interval with a sign
  change or in the sign test \<open>f(x) * f(x + dx) < 0\<close> itself, the scan goes on at the
  next sub-interval with the list and the count of roots as they were; when
  \<open>f\<close> or \<open>bisect\<close> raises any other exception, \<open>rootwalk\<close> raises it. So
  \<open>AsymtoteException\<close> is the only exception that \<open>rootwalk\<close> catches, and a call of
  \<open>rootwalk\<close> never raises it.
\<close>

theorem rootwalk_handler:
  "((f x = Inl AsymtoteException \<or>
     f x = Inr fx \<and> f (x + dx) = Inl AsymtoteException \<or>
     f x = Inr fx \<and> f (x + dx) = Inr fy \<and> fx * fy < 0 \<and>
       bisect f x (x + dx) eps max_iter = Inl AsymtoteException) \<and> int i \<noteq> n
    \<longrightarrow> rootwalk_loop f a b dx n eps max_iter (Suc k) x i r ws =
          rootwalk_loop f a b dx n eps max_iter k (x + dx) i r ws) \<and>
   (e \<noteq> AsymtoteException \<and>
    (f x = Inl e \<or>
     f x = Inr fx \<and> f (x + dx) = Inl e \<or>
     f x = Inr fx \<and> f (x + dx) = Inr fy \<and> fx * fy < 0 \<and>
       bisect f x (x + dx) eps max_iter = Inl e)
    \<longrightarrow> rootwalk_loop f a b dx n eps max_iter (Suc k) x i r ws = (Inl e, ws)) \<and>
   fst (rootwalk f a b N n eps max_iter) \<noteq> Inl AsymtoteException"
proof (intro conjI impI)
  assume "(f x = Inl AsymtoteException \<or>
     f x = Inr fx \<and> f (x + dx) = Inl AsymtoteException \<or>
     f x = Inr fx \<and> f (x + dx) = Inr fy \<and> fx * fy < 0 \<and>
       bisect f x (x + dx) eps max_iter = Inl AsymtoteException) \<and> int i \<noteq> n"
  then show "rootwalk_loop f a b dx n eps max_iter (Suc k) x i r ws =
          rootwalk_loop f a b dx n eps max_iter k (x + dx) i r ws"
    by (auto simp: rootwalk_try_def except_asymtote_def)
next
  assume "e \<noteq> AsymtoteException \<and>
    (f x = Inl e \<or>
     f x = Inr fx \<and> f (x + dx) = Inl e \<or>
     f x = Inr fx \<and> f (x + dx) = Inr fy \<and> fx * fy < 0 \<and>
       bisect f x (x + dx) eps max_iter = Inl e)"
  then show "rootwalk_loop f a b dx n eps max_iter (Suc k) x i r ws = (Inl e, ws)"
    by (auto simp: rootwalk_try_def except_asymtote_def)
next
  show "fst (rootwalk f a b N n eps max_iter) \<noteq> Inl AsymtoteException"
    by (simp add: rootwalk_def rootwalk_loop_no_asymtote)
qed

theorem rootwalk_handler_witness:
  "rootwalk (lifted steep_then_root) 0 4 2 1 (1 / 1000000) 1 = (Inr [Num 3], []) \<and>
   rootwalk raises_asymtote 0 2 2 1 (1 / 1000000) 1 = (Inr [Num (3 / 2)], []) \<and>
   rootwalk reciprocal (- 1) 1 2 1 (1 / 1000000) 1 = (Inl ZeroDivisionError, []) \<and>
   fst (rootwalk reciprocal (- 1) 1 2 1 (1 / 1000000) 1) \<noteq> Inl AsymtoteException"
proof -
  have b1: "bisect (lifted steep_then_root) 0 2 (1 / 1000000) 1 = Inl AsymtoteException"
    by (simp add: bisect_def lifted_def steep_then_root_def)
  have "rootwalk_loop (lifted steep_then_root) 0 4 2 1 (1 / 1000000) 1 (Suc (Suc 0)) 0 0 [NaN] [] =
        rootwalk_loop (lifted steep_then_root) 0 4 2 1 (1 / 1000000) 1 (Suc 0) 2 0 [NaN] []"
    using b1 rootwalk_handler [where f = "lifted steep_then_root" and x = 0 and dx = 2
        and fx = "- 5000" and fy = 15000 and eps = "1 / 1000000" and max_iter = 1 and i = 0
        and n = 1 and k = "Suc 0" and a = 0 and b = 4 and r = "[NaN]" and ws = "[]"]
    by (simp add: lifted_def steep_then_root_def del: rootwalk_loop.simps)
  moreover have "rootwalk_loop (lifted steep_then_root) 0 4 2 1 (1 / 1000000) 1 (Suc 0) 2 0 [NaN] [] =
        (Inr [Num 3], [])"
    by (simp add: rootwalk_try_def bisect_def lifted_def steep_then_root_def store_def warned_def)
  ultimately have w1: "rootwalk (lifted steep_then_root) 0 4 2 1 (1 / 1000000) 1 = (Inr [Num 3], [])"
    by (simp add: rootwalk_def numeral_2_eq_2 del: rootwalk_loop.simps)
  have "rootwalk_loop raises_asymtote 0 2 1 1 (1 / 1000000) 1 (Suc (Suc 0)) 0 0 [NaN] [] =
        rootwalk_loop raises_asymtote 0 2 1 1 (1 / 1000000) 1 (Suc 0) 1 0 [NaN] []"
    using rootwalk_handler [where f = raises_asymtote and x = 0 and dx = 1
        and eps = "1 / 1000000" and max_iter = 1 and i = 0
        and n = 1 and k = "Suc 0" and a = 0 and b = 2 and r = "[NaN]" and ws = "[]"]
    by (simp add: raises_asymtote_def del: rootwalk_loop.simps)
  moreover have "rootwalk_loop raises_asymtote 0 2 1 1 (1 / 1000000) 1 (Suc 0) 1 0 [NaN] [] =
        (Inr [Num (3 / 2)], [])"
    by (simp add: rootwalk_try_def bisect_def raises_asymtote_def store_def warned_def)
  ultimately have w2: "rootwalk raises_asymtote 0 2 2 1 (1 / 1000000) 1 = (Inr [Num (3 / 2)], [])"
    by (simp add: rootwalk_def numeral_2_eq_2 del: rootwalk_loop.simps)
  have "rootwalk_loop reciprocal (- 1) 1 1 1 (1 / 1000000) 1 (Suc (Suc 0)) (- 1) 0 [NaN] [] =
     (Inl ZeroDivisionError, [])"
    using rootwalk_handler [where f = reciprocal and x = "- 1" and dx = 1 and fx = "- 1"
        and e = ZeroDivisionError and eps = "1 / 1000000" and max_iter = 1 and i = 0
        and n = 1 and k = "Suc 0" and a = "- 1" and b = 1 and r = "[NaN]" and ws = "[]"]
    by (simp add: reciprocal_def del: rootwalk_loop.simps)
  then have w3: "rootwalk reciprocal (- 1) 1 2 1 (1 / 1000000) 1 = (Inl ZeroDivisionError, [])"
    by (simp add: rootwalk_def numeral_2_eq_2 del: rootwalk_loop.simps)
  have w4: "fst (rootwalk reciprocal (- 1) 1 2 1 (1 / 1000000) 1) \<noteq> Inl AsymtoteException"
    using rootwalk_handler [where f = reciprocal and a = "- 1" and b = 1 and N = 2 and n = 1
        and eps = "1 / 1000000" and max_iter = 1]
    by simp
  show ?thesis
    using w1 w2 w3 w4 by simp
qed

text \<open>
  C4 as stated fails where it says that \<open>rootwalk\<close> catches the exception only for
  its own calls of \<open>bisect\<close>: the \<open>try\<close> block holds the sign test too, and an
  \<open>AsymtoteException\<close> that \<open>f\<close> raises there, outside any call of \<open>bisect\<close>, is
  passed over like the others.
\<close>

theorem rootwalk_handler_counterexample:
  "raises_asymtote 0 = Inl AsymtoteException \<and>
   rootwalk raises_asymtote 0 2 2 1 (1 / 1000000) 1 = (Inr [Num (3 / 2)], [])"
  by (simp add: rootwalk_def rootwalk_try_def except_asymtote_def bisect_def raises_asymtote_def
      store_def warned_def numeral_2_eq_2)

subsection \<open>Stores into the list\<close>

text \<open>
  Of its own accord \<open>bisect\<close> raises three exceptions only; every other one comes
  from \<open>f\<close>.
\<close>

lemma bisect_loop_error:
  "bisect_loop f eps mi k a b mo = Inl e \<Longrightarrow>
   e = ZeroDivisionError \<or> e = UnboundLocalError \<or> e = AsymtoteException \<or> (\<exists>x. f x = Inl e)"
proof (induction k arbitrary: a b mo)
  case 0
  then show ?case
    by (auto simp: convergencewarning_def split: sum.splits if_splits option.splits)
next
  case (Suc k)
  then show ?case
    by (auto simp: Let_def split: sum.splits if_splits)
qed

lemma rootwalk_try_result:
  assumes "rootwalk_try f dx eps mi x i r ws = (Inr (i', r'), ws')"
  shows "i' = i \<and> r' = r \<and> ws' = ws \<or>
         (\<exists>m w. bisect f x (x + dx) eps mi = Inr (m, w) \<and> i < length r \<and>
                i' = Suc i \<and> r' = r[i := Num m] \<and> ws' = ws @ warned w)"
  using assms
  by (auto simp: rootwalk_try_def except_asymtote_def store_def
      split: sum.splits if_splits prod.splits)

lemma rootwalk_try_index:
  assumes "rootwalk_try f dx eps mi x i r ws = (Inl e, ws')" and "i < length r"
  shows "e \<noteq> IndexError \<or> (\<exists>y. f y = Inl IndexError)"
proof -
  have "bisect f x (x + dx) eps mi = Inl IndexError \<Longrightarrow> \<exists>y. f y = Inl IndexError"
    unfolding bisect_def by (drule bisect_loop_error) auto
  with assms show ?thesis
    by (auto simp: rootwalk_try_def except_asymtote_def store_def
        split: sum.splits if_splits prod.splits)
qed

lemma rootwalk_loop_in_bounds:
  assumes "\<forall>y. f y \<noteq> Inl IndexError" and "i < nat n" and "length r = nat n"
  shows "fst (rootwalk_loop f a b dx n eps mi k x i r ws) \<noteq> Inl IndexError \<and>
         (\<forall>r'. fst (rootwalk_loop f a b dx n eps mi k x i r ws) = Inr r' \<longrightarrow> length r' = nat n)"
  using assms(2,3)
proof (induction k arbitrary: x i r ws)
  case 0
  then show ?case by simp
next
  case (Suc k)
  show ?case
  proof (cases "rootwalk_try f dx eps mi x i r ws")
    case (Pair res ws')
    show ?thesis
    proof (cases res)
      case (Inl e)
      with Pair rootwalk_try_index [of f dx eps mi x i r ws e ws'] Suc.prems assms(1)
      show ?thesis by simp
    next
      case (Inr ir)
      obtain i' r' where ir: "ir = (i', r')" by (cases ir)
      have t: "rootwalk_try f dx eps mi x i r ws = (Inr (i', r'), ws')"
        using Pair Inr ir by simp
      from rootwalk_try_result [OF t] Suc.prems
      have len: "length r' = nat n" and le: "i' \<le> nat n"
        by auto
      show ?thesis
      proof (cases "int i' = n")
        case True
        with t len show ?thesis by simp
      next
        case False
        with le Suc.prems(1) have "i' < nat n" by linarith
        from Suc.IH [OF this len, of "x + dx" ws'] t False
        show ?thesis by simp
      qed
    qed
  qed
qed

lemma length_nums: "length (nums r) \<le> length r"
  by (induction r rule: nums.induct) simp_all

text \<open>
  C9. For \<open>n \<ge> 1\<close> every store \<open>r[i] = ...\<close> is in bounds. A store out of range
  raises \<open>IndexError\<close>, which the handler lets through, and nothing else in
  \<open>rootwalk\<close> or \<open>bisect\<close> raises it; so, for an \<open>f\<close> that does not raise
  \<open>IndexError\<close> itself, no call of \<open>rootwalk\<close> does: at each store \<open>i < n\<close>, the
  length of the list. The list returned has length \<open>n\<close>, hence at most \<open>n\<close> roots.
\<close>

theorem rootwalk_stores_in_bounds:
  assumes "1 \<le> n" and "\<forall>y. f y \<noteq> Inl IndexError"
  shows "fst (rootwalk f a b N n eps max_iter) \<noteq> Inl IndexError \<and>
         (\<forall>r. fst (rootwalk f a b N n eps max_iter) = Inr r \<longrightarrow>
              length r = nat n \<and> length (nums r) \<le> nat n)"
proof (cases "N = 0")
  case True
  then show ?thesis by (simp add: rootwalk_def)
next
  case False
  let ?res = "rootwalk_loop f a b ((b - a) / of_int N) n eps max_iter (nat N) a 0
                (replicate (nat n) NaN) []"
  have res: "rootwalk f a b N n eps max_iter = ?res"
    using False by (simp add: rootwalk_def)
  have "0 < nat n" using assms(1) by simp
  then have inv: "fst ?res \<noteq> Inl IndexError \<and> (\<forall>r'. fst ?res = Inr r' \<longrightarrow> length r' = nat n)"
    by (intro rootwalk_loop_in_bounds [OF assms(2)]) simp_all
  show ?thesis
  proof (intro conjI allI impI)
    show "fst (rootwalk f a b N n eps max_iter) \<noteq> Inl IndexError"
      unfolding res using inv by blast
  next
    fix r assume "fst (rootwalk f a b N n eps max_iter) = Inr r"
    then show "length r = nat n"
      unfolding res using inv by blast
  next
    fix r assume "fst (rootwalk f a b N n eps max_iter) = Inr r"
    then have "length r = nat n"
      unfolding res using inv by blast
    then show "length (nums r) \<le> nat n"
      using length_nums [of r] by simp
  qed
qed

theorem rootwalk_stores_in_bounds_witness:
  "rootwalk (lifted (\<lambda>x. x - 1 / 2)) 0 1 1 1 (1 / 1000000) 1 = (Inr [Num (1 / 2)], []) \<and>
   fst (rootwalk (lifted (\<lambda>x. x - 1 / 2)) 0 1 1 1 (1 / 1000000) 1) \<noteq> Inl IndexError \<and>
   length [Num (1 / 2)] = nat 1 \<and> length (nums [Num (1 / 2)]) \<le> nat 1"
proof -
  have ev: "rootwalk (lifted (\<lambda>x. x - 1 / 2)) 0 1 1 1 (1 / 1000000) 1 = (Inr [Num (1 / 2)], [])"
    by (simp add: rootwalk_def rootwalk_try_def bisect_def lifted_def store_def warned_def)
  show ?thesis
    using rootwalk_stores_in_bounds [of 1 "lifted (\<lambda>x. x - 1 / 2)" 0 1 1 "1 / 1000000" 1] ev
    by (simp add: lifted_def)
qed

subsection \<open>The scan as a whole\<close>

text \<open>The \<open>try\<close> block is the probe of the sub-interval, followed by the store.\<close>

lemma rootwalk_try_probe:
  "rootwalk_try f dx eps mi x i r ws =
     (case probe f eps mi dx x of
        Quiet \<Rightarrow> (Inr (i, r), ws)
      | Failed e \<Rightarrow> (Inl e, ws)
      | Hit m w \<Rightarrow>
          (case store r i m of
             Inl e \<Rightarrow> except_asymtote e i r (ws @ warned w)
           | Inr r' \<Rightarrow> (Inr (Suc i, r'), ws @ warned w)))"
  by (simp add: rootwalk_try_def probe_def passed_over_def except_asymtote_def
      split: sum.splits prod.splits)

text \<open>A store at the first free slot of a list that is not full.\<close>

lemma store_filled:
  assumes "length ms < n"
  shows "store (map Num ms @ replicate (n - length ms) NaN) (length ms) m =
         Inr (map Num (ms @ [m]) @ replicate (n - Suc (length ms)) NaN)"
proof -
  obtain d where d: "n - length ms = Suc d"
    using assms by (cases "n - length ms") simp_all
  have "(map Num ms @ NaN # replicate d NaN)[length (map Num ms) := Num m] =
        map Num ms @ Num m # replicate d NaN"
    by (rule list_update_length)
  moreover have "n - Suc (length ms) = d"
    using d by simp
  ultimately show ?thesis
    by (simp add: store_def d)
qed

lemma finish_Quiet: "finish a b n ms ws (Quiet # sc) = finish a b n ms ws sc"
  by (simp add: finish_def split: option.splits)

lemma finish_Hit: "finish a b n ms ws (Hit m w # sc) = finish a b n (ms @ [m]) (ws @ warned w) sc"
  by (simp add: finish_def split: option.splits)

lemma finish_outcome: "finish a b n [] [] sc = outcome a b n sc"
  by (simp add: finish_def outcome_def split: option.splits)

text \<open>
  The loop, from a state with the roots \<open>ms\<close> found so far, fewer than \<open>n\<close>, and
  \<open>k\<close> sub-intervals to go.
\<close>

lemma rootwalk_loop_scanned:
  "length ms < n \<Longrightarrow>
   rootwalk_loop f a b dx (int n) eps mi k x (length ms)
     (map Num ms @ replicate (n - length ms) NaN) ws =
   finish a b n ms ws (scanned (n - length ms) (map (probe f eps mi dx) (points x dx k)))"
proof (induction k arbitrary: x ms ws)
  case 0
  then obtain d where d: "n - length ms = Suc d"
    by (cases "n - length ms") simp_all
  show ?case
    using "0.prems" by (simp add: d finish_def incompletesolution_def)
next
  case (Suc k)
  obtain d where d: "n - length ms = Suc d"
    using Suc.prems by (cases "n - length ms") simp_all
  have d': "n - Suc (length ms) = d"
    using d by simp
  let ?r = "map Num ms @ replicate (n - length ms) NaN"
  let ?ps = "map (probe f eps mi dx) (points (x + dx) dx k)"
  show ?case
  proof (cases "probe f eps mi dx x")
    case Quiet
    then have "rootwalk_loop f a b dx (int n) eps mi (Suc k) x (length ms) ?r ws =
               rootwalk_loop f a b dx (int n) eps mi k (x + dx) (length ms) ?r ws"
      using Suc.prems by (simp add: rootwalk_try_probe)
    also have "\<dots> = finish a b n ms ws (scanned (n - length ms) ?ps)"
      by (rule Suc.IH [OF Suc.prems])
    finally show ?thesis
      using Quiet by (simp add: d finish_Quiet)
  next
    case (Failed e)
    then have "rootwalk_loop f a b dx (int n) eps mi (Suc k) x (length ms) ?r ws = (Inl e, ws)"
      by (simp add: rootwalk_try_probe)
    then show ?thesis
      using Failed by (simp add: d finish_def)
  next
    case (Hit m w)
    let ?r' = "map Num (ms @ [m]) @ replicate (n - length (ms @ [m])) NaN"
    have st: "store ?r (length ms) m = Inr ?r'"
      using store_filled [OF Suc.prems, of m] by simp
    have step: "rootwalk_loop f a b dx (int n) eps mi (Suc k) x (length ms) ?r ws =
          (if Suc (length ms) = n then (Inr ?r', ws @ warned w)
           else rootwalk_loop f a b dx (int n) eps mi k (x + dx) (length (ms @ [m])) ?r'
                  (ws @ warned w))"
      using Hit st by (simp add: rootwalk_try_probe del: rootwalk_loop.simps(1))
    show ?thesis
    proof (cases "Suc (length ms) = n")
      case True
      then have "d = 0"
        using d by simp
      then show ?thesis
        using step True Hit by (simp add: d finish_def)
    next
      case False
      then have less: "length (ms @ [m]) < n"
        using Suc.prems by simp
      have "rootwalk_loop f a b dx (int n) eps mi (Suc k) x (length ms) ?r ws =
            finish a b n (ms @ [m]) (ws @ warned w) (scanned (n - length (ms @ [m])) ?ps)"
        using step False by (simp only: Suc.IH [OF less] if_False)
      then show ?thesis
        using Hit by (simp add: d d' finish_Hit)
    qed
  qed
qed

text \<open>
  C3, as amended. For every call with \<open>N \<noteq> 0\<close> and \<open>n \<ge> 1\<close>, whatever \<open>f\<close> does:
  \<open>rootwalk\<close> walks the sub-intervals \<open>[x, x + dx]\<close> of width \<open>dx = (b - a) / N\<close>
  from left to right, \<open>x\<close> starting at \<open>a\<close> and going on by \<open>x += dx\<close>, at most \<open>N\<close>
  of them. The list it returns starts as \<open>n\<close> not-a-numbers and gets the result
  of \<open>bisect\<close> at the next free slot for exactly the sub-intervals with
  \<open>f(x) * f(x + dx) < 0\<close> on which \<open>bisect\<close> returns. The call returns the list as
  soon as \<open>n\<close> roots are in it, and \<open>f\<close> is not called on the sub-intervals behind;
  when all \<open>N\<close> steps gave fewer than \<open>n\<close> roots it logs \<open>IncompleteSolution\<close> and
  returns the list as it is, padded with not-a-numbers. An exception other than
  \<open>AsymtoteException\<close> ends the call where it is raised.
\<close>

theorem rootwalk_scanned:
  assumes "N \<noteq> 0" and "1 \<le> n"
  shows "rootwalk f a b N n eps max_iter =
           outcome a b (nat n)
             (scanned (nat n)
                (map (probe f eps max_iter ((b - a) / of_int N))
                   (points a ((b - a) / of_int N) (nat N))))"
proof -
  have n: "int (nat n) = n" and less: "length ([] :: real list) < nat n"
    using assms(2) by simp_all
  from rootwalk_loop_scanned [OF less, of f a b "(b - a) / of_int N" eps max_iter "nat N" a "[]"]
  show ?thesis
    using assms by (simp add: rootwalk_def finish_outcome)
qed

theorem rootwalk_scanned_witness:
  "rootwalk raises_beyond 0 2 2 1 (1 / 1000000) 1 = (Inr [Num (1 / 2)], []) \<and>
   rootwalk raises_beyond 0 2 2 2 (1 / 1000000) 1 = (Inl (Fault ''domain''), []) \<and>
   rootwalk (lifted steep_then_root) 0 4 2 2 (1 / 1000000) 1 =
     (Inr [Num 3, NaN], [IncompleteSolution 0 4 1 2])"
proof -
  have b1: "bisect raises_beyond 0 1 (1 / 1000000) 1 = Inr (1 / 2, None)"
    by (simp add: bisect_def raises_beyond_def)
  have p1: "probe raises_beyond (1 / 1000000) 1 1 0 = Hit (1 / 2) None"
    and p2: "probe raises_beyond (1 / 1000000) 1 1 1 = Failed (Fault ''domain'')"
    by (simp_all add: probe_def raises_beyond_def passed_over_def b1)
  have b3: "bisect (lifted steep_then_root) 0 2 (1 / 1000000) 1 = Inl AsymtoteException"
    and b4: "bisect (lifted steep_then_root) 2 4 (1 / 1000000) 1 = Inr (3, None)"
    by (simp_all add: bisect_def lifted_def steep_then_root_def)
  have v: "lifted steep_then_root 0 = Inr (- 5000)" "lifted steep_then_root 2 = Inr 15000"
    "lifted steep_then_root 4 = Inr (- 1)"
    by (simp_all add: lifted_def steep_then_root_def)
  have p3: "probe (lifted steep_then_root) (1 / 1000000) 1 2 0 = Quiet"
    and p4: "probe (lifted steep_then_root) (1 / 1000000) 1 2 2 = Hit 3 None"
    by (simp_all add: probe_def passed_over_def v b3 b4)
  have "rootwalk raises_beyond 0 2 2 1 (1 / 1000000) 1 = (Inr [Num (1 / 2)], [])"
    using rootwalk_scanned [of 2 1 raises_beyond 0 2 "1 / 1000000" 1]
    by (simp add: numeral_2_eq_2 p1 p2 outcome_def warned_def)
  moreover have "rootwalk raises_beyond 0 2 2 2 (1 / 1000000) 1 = (Inl (Fault ''domain''), [])"
    using rootwalk_scanned [of 2 2 raises_beyond 0 2 "1 / 1000000" 1]
    by (simp add: numeral_2_eq_2 p1 p2 outcome_def warned_def)
  moreover have "rootwalk (lifted steep_then_root) 0 4 2 2 (1 / 1000000) 1 =
     (Inr [Num 3, NaN], [IncompleteSolution 0 4 1 2])"
    using rootwalk_scanned [of 2 2 "lifted steep_then_root" 0 4 "1 / 1000000" 1]
    by (simp add: numeral_2_eq_2 p3 p4 outcome_def warned_def)
  ultimately show ?thesis by simp
qed

text \<open>
  C3 as stated fails in two places. With \<open>n = 0\<close> the list is not returned at
  once: the first sub-interval is scanned, and a root found there is stored
  into the empty list, which raises \<open>IndexError\<close>. And a sign change does not
  always give a store: on \<open>[-1, 3]\<close> the steep line changes sign, \<open>bisect\<close> raises
  \<open>AsymtoteException\<close>, and the slot stays \<open>NaN\<close>.
\<close>

theorem rootwalk_scanned_counterexample:
  "rootwalk (lifted identity) (- 1) 1 1 0 (1 / 1000000) 1 = (Inl IndexError, []) \<and>
   steep (- 1) * steep 3 < 0 \<and>
   rootwalk (lifted steep) (- 1) 3 1 1 (1 / 1000000) 1 =
     (Inr [NaN], [IncompleteSolution (- 1) 3 0 1])"
  by (simp add: rootwalk_def rootwalk_try_def except_asymtote_def bisect_def lifted_def
      identity_def steep_def store_def warned_def incompletesolution_def)

end
